theory Spec2Isabelle
  imports Main "HOL-Library.Word"
begin

section \<open>The hot restart messages\<close>

text \<open>
  The parent side of the hot restart protocol (\<open>HotRestartingParent\<close>) answers the
  requests of the child process. A message (\<open>HotRestartMessage\<close>) holds either a
  request or a reply, each of them a tagged union, and the flag
  \<open>didnt_recognize_your_last_message\<close>. A union whose tag is of a kind the receiver
  does not know reads as "not set".
\<close>

type_synonym address = string
  \<comment> \<open>a resolved \<open>Network::Address::Instance\<close>, compared with \<open>==\<close>\<close>

datatype request =
    kShutdownAdmin
  | kPassListenSocket string "32 word"  \<comment> \<open>address, worker\_index\<close>
  | kPassConnectionSocket
  | kPassConnectionData string  \<comment> \<open>connection\_id\<close>
  | kStats
  | kDrainListeners
  | kTerminate
  | REQUEST_NOT_SET

record socket_info =
  si_fd :: int
  si_buffer :: "string option"

type_synonym span = "32 word \<times> 32 word"

record stats_reply =
  gauges :: "string \<rightharpoonup> 64 word"
  counter_deltas :: "string \<rightharpoonup> 64 word"
  dynamics :: "string \<rightharpoonup> span list"
  memory_allocated :: "64 word"
  num_connections :: "64 word"

datatype reply =
    ReplyShutdownAdmin "64 word" bool
      \<comment> \<open>original\_start\_time\_unix\_seconds, enable\_reuse\_port\_default\<close>
  | ReplyPassListenSocket int  \<comment> \<open>fd\<close>
  | ReplyPassConnectionSocket "socket_info list" bool  \<comment> \<open>sockets, has\_more\_fd\<close>
  | ReplyPassConnectionData string "string option"
      \<comment> \<open>connection\_id, connection\_data\<close>
  | ReplyStats stats_reply
  | REPLY_NOT_SET

datatype requestreply = kRequest request | kReply reply | REQUESTREPLY_NOT_SET

record hot_restart_message =
  requestreply :: requestreply
  didnt_recognize_your_last_message :: bool

text \<open>\<open>wrapped_request->request()\<close>: the request of a message, the default instance
  (no tag set) when the message holds none.\<close>

fun request_of :: "hot_restart_message \<Rightarrow> request" where
  "request_of m = (case requestreply m of kRequest r \<Rightarrow> r | _ \<Rightarrow> REQUEST_NOT_SET)"

text \<open>\<open>request.pass_listen_socket()\<close> and \<open>request.pass_connection_data()\<close>, with
  the defaults of an unset field.\<close>

fun pass_listen_socket_address :: "request \<Rightarrow> string" where
  "pass_listen_socket_address (kPassListenSocket a w) = a"
| "pass_listen_socket_address _ = []"

fun pass_listen_socket_worker_index :: "request \<Rightarrow> 32 word" where
  "pass_listen_socket_worker_index (kPassListenSocket a w) = w"
| "pass_listen_socket_worker_index _ = 0"

fun pass_connection_data_connection_id :: "request \<Rightarrow> string" where
  "pass_connection_data_connection_id (kPassConnectionData c) = c"
| "pass_connection_data_connection_id _ = []"

definition wrapped_reply :: "reply \<Rightarrow> hot_restart_message" where
  "wrapped_reply r = \<lparr>requestreply = kReply r, didnt_recognize_your_last_message = False\<rparr>"


section \<open>The server the parent works for\<close>

text \<open>
  What the operations read from \<open>Server::Instance\<close> and what they change there. The
  classes behind it are not part of the verified file, so their accessors are fields.
\<close>

record listener =
  localAddress :: address  \<comment> \<open>\<open>listenSocketFactory().localAddress()\<close>\<close>
  bindToPort :: bool
  getListenSocket :: "32 word \<Rightarrow> int"
    \<comment> \<open>\<open>getListenSocket(worker_index)->ioHandle().fdDoNotUse()\<close>\<close>

record io_handle =
  fdDoNotUse :: int
  isOpen :: bool
  io_localAddress :: string  \<comment> \<open>\<open>localAddress()->asString()\<close>\<close>
  io_peerAddress :: string  \<comment> \<open>\<open>peerAddress()->asString()\<close>\<close>
  read_ok :: bool  \<comment> \<open>whether a \<open>read\<close> of the handle succeeds\<close>
  read_data :: string  \<comment> \<open>the bytes a \<open>read\<close> leaves in the buffer\<close>

type_synonym handle_ref = nat
  \<comment> \<open>\<open>Network::IoHandle&\<close>: the handle lives in its connection, the parent keeps a
      reference\<close>

record connection_impl =
  ioHandle :: handle_ref
  getReadBuffer :: string

type_synonym active_connection = "connection_impl option"
  \<comment> \<open>\<open>dynamic_cast<ConnectionImpl*>(con->connection_.get())\<close>, \<open>None\<close> for \<open>nullptr\<close>\<close>

type_synonym active_tcp_listener = "(nat \<times> active_connection list) list"
  \<comment> \<open>\<open>connections_by_context_\<close> in iteration order, each with its \<open>connections_\<close>\<close>

type_synonym active_listener_details = "active_tcp_listener option"
  \<comment> \<open>\<open>tcpListener()\<close>, \<open>None\<close> for \<open>absl::nullopt\<close>\<close>

type_synonym worker = "(nat \<times> active_listener_details) list"
  \<comment> \<open>\<open>getHandler()->getListeners()\<close> in iteration order\<close>

type_synonym stat_name = "8 word list"

record gauge =
  gauge_used :: bool
  gauge_name :: string
  gauge_value :: "64 word"
  gauge_statName :: stat_name

record counter =
  counter_used :: bool
  counter_name :: string
  pending_increment :: "64 word"
  counter_statName :: stat_name

record server =
  listeners :: "listener list"  \<comment> \<open>\<open>listenerManager().listeners()\<close>\<close>
  concurrency :: "32 word"  \<comment> \<open>\<open>options().concurrency()\<close>\<close>
  resolveUrl :: "string \<Rightarrow> address option"
    \<comment> \<open>\<open>Network::Utility::resolveUrl\<close>, \<open>None\<close> when it throws\<close>
  workers :: "worker list"  \<comment> \<open>\<open>getWorkers()\<close>\<close>
  io_handles :: "handle_ref \<Rightarrow> io_handle"
  read_disable_posted :: "handle_ref list"
    \<comment> \<open>the connections a worker was told to \<open>readDisable(true)\<close>, oldest first\<close>
  store_gauges :: "gauge list"  \<comment> \<open>\<open>stats().gauges()\<close>\<close>
  store_counters :: "counter list"  \<comment> \<open>\<open>stats().counters()\<close>\<close>
  getDynamicSpans :: "stat_name \<Rightarrow> span list"  \<comment> \<open>of \<open>stats().symbolTable()\<close>\<close>
  totalCurrentlyAllocated :: "64 word"
  numConnections :: "64 word"
  startTimeFirstEpoch :: "64 word"
  enableReusePortDefault :: bool
  shutdownAdmin_calls :: nat
  drainListeners_calls :: nat

text \<open>\<open>HotRestartingParent::Internal\<close>: the server \<open>server_\<close> (here \<open>srv\<close>) and the
  connection registry \<open>handlers_\<close> (here \<open>handlers\<close>), from connection key to the
  connection's handle.\<close>

record internal =
  srv :: server
  handlers :: "string \<rightharpoonup> handle_ref"

datatype error = EnvoyException


section \<open>ShutdownAdmin and PassListenSocket\<close>

definition shutdownAdmin :: "internal \<Rightarrow> hot_restart_message \<times> internal" where
  "shutdownAdmin i =
     (let s = (srv i)\<lparr>shutdownAdmin_calls := Suc (shutdownAdmin_calls (srv i))\<rparr>
      in (wrapped_reply (ReplyShutdownAdmin (startTimeFirstEpoch s) (enableReusePortDefault s)),
          i\<lparr>srv := s\<rparr>))"

text \<open>The loop over the listeners of \<open>getListenSocketsForChild\<close>; \<open>fd\<close> is the
  descriptor the reply holds so far. The first listener with the address that binds to
  its port ends the loop, whether the worker index is in range or not.\<close>

fun listen_sockets_loop ::
  "listener list \<Rightarrow> address \<Rightarrow> 32 word \<Rightarrow> 32 word \<Rightarrow> int \<Rightarrow> int" where
  "listen_sockets_loop [] addr worker_index conc fd = fd"
| "listen_sockets_loop (l # ls) addr worker_index conc fd =
     (if localAddress l = addr \<and> bindToPort l
      then (if worker_index < conc then getListenSocket l worker_index else fd)
      else listen_sockets_loop ls addr worker_index conc fd)"

definition getListenSocketsForChild ::
  "internal \<Rightarrow> request \<Rightarrow> error + hot_restart_message" where
  "getListenSocketsForChild i request =
     (case resolveUrl (srv i) (pass_listen_socket_address request) of
        None \<Rightarrow> Inl EnvoyException
      | Some addr \<Rightarrow>
          Inr (wrapped_reply (ReplyPassListenSocket
            (listen_sockets_loop (listeners (srv i)) addr
               (pass_listen_socket_worker_index request) (concurrency (srv i)) (- 1)))))"


text \<open>The descriptor a message carries, for a message that is a PassListenSocket
  reply.\<close>

fun reply_listen_fd :: "hot_restart_message \<Rightarrow> int option" where
  "reply_listen_fd m =
     (case requestreply m of kReply (ReplyPassListenSocket fd) \<Rightarrow> Some fd | _ \<Rightarrow> None)"

section \<open>PassConnectionSocket\<close>

definition MAX_FD_SIZE :: nat where
  "MAX_FD_SIZE = 100"

text \<open>What \<open>getConnectionSocketsForChild\<close> has built and changed at a point of its
  scan: the sockets and the flag of the reply, the registry \<open>handlers_\<close>, and the
  connections whose worker was told to disable reading. The parent waits for the worker
  (\<open>wgcon.Wait()\<close>) after each post; the scan below takes it that the worker answers.\<close>

record scan =
  sockets :: "socket_info list"
  has_more_fd :: bool
  registry :: "string \<rightharpoonup> handle_ref"
  posted :: "handle_ref list"

definition connection_key :: "io_handle \<Rightarrow> string" where
  "connection_key h = io_localAddress h @ ''_'' @ io_peerAddress h"

text \<open>The body of the innermost loop. The result's second component tells whether the
  function returned there (the batch is full) instead of going on with the loops.\<close>

fun scan_connection ::
  "(handle_ref \<Rightarrow> io_handle) \<Rightarrow> active_connection \<Rightarrow> scan \<Rightarrow> scan \<times> bool" where
  "scan_connection heap None st = (st, False)"
| "scan_connection heap (Some sc) st =
     (let h = heap (ioHandle sc) in
      if \<not> isOpen h then (st, False)
      else
        let st1 = st\<lparr>posted := posted st @ [ioHandle sc]\<rparr>;
            key = connection_key h
        in if registry st1 key \<noteq> None then (st1, False)
           else
             let fd = fdDoNotUse h;
                 buf = getReadBuffer sc;
                 add_socket = \<lparr>si_fd = fd,
                               si_buffer = (if length buf > 0 then Some buf else None)\<rparr>;
                 st2 = st1\<lparr>sockets := sockets st1 @ [add_socket],
                           registry := (registry st1)(key \<mapsto> ioHandle sc)\<rparr>
             in if length (sockets st2) \<ge> MAX_FD_SIZE
                then (st2\<lparr>has_more_fd := True\<rparr>, True)
                else (st2, False))"

fun connections_loop ::
  "(handle_ref \<Rightarrow> io_handle) \<Rightarrow> active_connection list \<Rightarrow> scan \<Rightarrow> scan \<times> bool" where
  "connections_loop heap [] st = (st, False)"
| "connections_loop heap (con # cons) st =
     (case scan_connection heap con st of
        (st', returned) \<Rightarrow>
          if returned then (st', True) else connections_loop heap cons st')"

fun contexts_loop ::
  "(handle_ref \<Rightarrow> io_handle) \<Rightarrow> active_tcp_listener \<Rightarrow> scan \<Rightarrow> scan \<times> bool" where
  "contexts_loop heap [] st = (st, False)"
| "contexts_loop heap (cont # conts) st =
     (case connections_loop heap (snd cont) st of
        (st', returned) \<Rightarrow>
          if returned then (st', True) else contexts_loop heap conts st')"

fun listeners_loop ::
  "(handle_ref \<Rightarrow> io_handle) \<Rightarrow> worker \<Rightarrow> scan \<Rightarrow> scan \<times> bool" where
  "listeners_loop heap [] st = (st, False)"
| "listeners_loop heap (listenerPair # lss) st =
     (case snd listenerPair of
        None \<Rightarrow> listeners_loop heap lss st
      | Some tcpListener \<Rightarrow>
          (case contexts_loop heap tcpListener st of
             (st', returned) \<Rightarrow>
               if returned then (st', True) else listeners_loop heap lss st'))"

fun workers_loop ::
  "(handle_ref \<Rightarrow> io_handle) \<Rightarrow> worker list \<Rightarrow> scan \<Rightarrow> scan \<times> bool" where
  "workers_loop heap [] st = (st, False)"
| "workers_loop heap (wk # wkrs) st =
     (case listeners_loop heap wk st of
        (st', returned) \<Rightarrow>
          if returned then (st', True) else workers_loop heap wkrs st')"

definition getConnectionSocketsForChild ::
  "internal \<Rightarrow> request \<Rightarrow> hot_restart_message \<times> internal" where
  "getConnectionSocketsForChild i request =
     (let st = fst (workers_loop (io_handles (srv i)) (workers (srv i))
                 \<lparr>sockets = [], has_more_fd = False, registry = handlers i,
                  posted = read_disable_posted (srv i)\<rparr>)
      in (wrapped_reply (ReplyPassConnectionSocket (sockets st) (has_more_fd st)),
          i\<lparr>srv := (srv i)\<lparr>read_disable_posted := posted st\<rparr>,
            handlers := registry st\<rparr>))"

text \<open>The sockets and the flag of a message, for a message that is a
  PassConnectionSocket reply.\<close>

fun reply_sockets :: "hot_restart_message \<Rightarrow> socket_info list" where
  "reply_sockets m =
     (case requestreply m of kReply (ReplyPassConnectionSocket ss hm) \<Rightarrow> ss | _ \<Rightarrow> [])"

fun reply_has_more_fd :: "hot_restart_message \<Rightarrow> bool" where
  "reply_has_more_fd m =
     (case requestreply m of kReply (ReplyPassConnectionSocket ss hm) \<Rightarrow> hm | _ \<Rightarrow> False)"

subsection \<open>The connections a scan has to hand over\<close>

text \<open>The connections of all workers in the order the four loops visit them.\<close>

definition listener_connections :: "nat \<times> active_listener_details \<Rightarrow> active_connection list" where
  "listener_connections listenerPair =
     (case snd listenerPair of None \<Rightarrow> [] | Some tcpListener \<Rightarrow> concat (map snd tcpListener))"

definition all_connections :: "worker list \<Rightarrow> active_connection list" where
  "all_connections wkrs = concat (map (\<lambda>wk. concat (map listener_connections wk)) wkrs)"

text \<open>The eligible connections of a list, in the words of the specification: a
  connection that is a TCP connection, whose handle is open and whose key is not in the
  registry, where a connection counts as registered from the moment an earlier one with the
  same key is handed over.\<close>

fun eligible ::
  "(handle_ref \<Rightarrow> io_handle) \<Rightarrow> (string \<rightharpoonup> handle_ref) \<Rightarrow> active_connection list
    \<Rightarrow> connection_impl list" where
  "eligible heap reg [] = []"
| "eligible heap reg (None # cons) = eligible heap reg cons"
| "eligible heap reg (Some sc # cons) =
     (if isOpen (heap (ioHandle sc)) \<and> reg (connection_key (heap (ioHandle sc))) = None
      then sc # eligible heap (reg(connection_key (heap (ioHandle sc)) \<mapsto> ioHandle sc)) cons
      else eligible heap reg cons)"

text \<open>The entry of the reply for a connection, and the registry after a list of
  connections has been registered.\<close>

definition socket_of :: "(handle_ref \<Rightarrow> io_handle) \<Rightarrow> connection_impl \<Rightarrow> socket_info" where
  "socket_of heap sc =
     \<lparr>si_fd = fdDoNotUse (heap (ioHandle sc)),
      si_buffer = (if getReadBuffer sc = [] then None else Some (getReadBuffer sc))\<rparr>"

fun register ::
  "(handle_ref \<Rightarrow> io_handle) \<Rightarrow> (string \<rightharpoonup> handle_ref) \<Rightarrow> connection_impl list
    \<Rightarrow> (string \<rightharpoonup> handle_ref)" where
  "register heap reg [] = reg"
| "register heap reg (sc # scs) =
     register heap (reg(connection_key (heap (ioHandle sc)) \<mapsto> ioHandle sc)) scs"

definition key_of :: "(handle_ref \<Rightarrow> io_handle) \<Rightarrow> connection_impl \<Rightarrow> string" where
  "key_of heap sc = connection_key (heap (ioHandle sc))"


definition remaining :: "internal \<Rightarrow> connection_impl list" where
  "remaining i =
     eligible (io_handles (srv i)) (handlers i) (all_connections (workers (srv i)))"

definition exported :: "internal \<Rightarrow> connection_impl list" where
  "exported i = take MAX_FD_SIZE (remaining i)"

text \<open>A run of handoff requests. Before each request the server may have changed
  (connections come and go between requests); the registry is the parent's own and is
  carried from one request to the next. The result lists, request by request, the keys of
  the connections handed over.\<close>

fun handoff_keys :: "internal \<Rightarrow> server list \<Rightarrow> string list list" where
  "handoff_keys i [] = []"
| "handoff_keys i (s # ss) =
     map (key_of (io_handles s)) (exported (i\<lparr>srv := s\<rparr>))
       # handoff_keys (snd (getConnectionSocketsForChild (i\<lparr>srv := s\<rparr>) kPassConnectionSocket)) ss"


section \<open>PassConnectionData\<close>

text \<open>Modelled from the spec: \<open>IoHandle::read\<close> is not part of the verified file. A
  read leaves in the buffer the bytes the handle holds for it (\<open>read_data\<close>) and the
  handle holds them no longer; that the read failed (\<open>read_ok\<close> is false) is logged
  and changes nothing else.\<close>

definition io_read :: "io_handle \<Rightarrow> string \<times> io_handle" where
  "io_read handler = (read_data handler, handler\<lparr>read_data := []\<rparr>)"

definition getConnectionDataForChild ::
  "internal \<Rightarrow> request \<Rightarrow> hot_restart_message \<times> internal" where
  "getConnectionDataForChild i request =
     (let id = pass_connection_data_connection_id request in
      case handlers i id of
        None \<Rightarrow> (wrapped_reply (ReplyPassConnectionData id None), i)
      | Some iter \<Rightarrow>
          let handler = io_handles (srv i) iter;
              (buf, handler') = (if isOpen handler then io_read handler else ([], handler));
              i' = i\<lparr>srv := (srv i)\<lparr>io_handles := (io_handles (srv i))(iter := handler')\<rparr>\<rparr>
          in (wrapped_reply
                (ReplyPassConnectionData id (if length buf > 0 then Some buf else None)), i'))"


section \<open>Stats\<close>

definition recordDynamics :: "server \<Rightarrow> stats_reply \<Rightarrow> string \<Rightarrow> stat_name \<Rightarrow> stats_reply" where
  "recordDynamics s stats name stat_name =
     (let spans = getDynamicSpans s stat_name in
      if spans \<noteq> []
      then stats\<lparr>dynamics := (dynamics stats)(name \<mapsto> map (\<lambda>span. (fst span, snd span)) spans)\<rparr>
      else stats)"

fun gauges_loop :: "server \<Rightarrow> gauge list \<Rightarrow> stats_reply \<Rightarrow> stats_reply" where
  "gauges_loop s [] stats = stats"
| "gauges_loop s (g # gs) stats =
     gauges_loop s gs
       (if gauge_used g
        then recordDynamics s (stats\<lparr>gauges := (gauges stats)(gauge_name g \<mapsto> gauge_value g)\<rparr>)
               (gauge_name g) (gauge_statName g)
        else stats)"

text \<open>Modelled from the spec: \<open>Counter::latch\<close> is not part of the verified file. It
  returns the change of the counter since the last latch and resets it.\<close>

definition latch :: "counter \<Rightarrow> 64 word \<times> counter" where
  "latch c = (pending_increment c, c\<lparr>pending_increment := 0\<rparr>)"

text \<open>The loop over the counters gives the reply and the counters as it leaves them.\<close>

fun counters_loop ::
  "server \<Rightarrow> counter list \<Rightarrow> stats_reply \<Rightarrow> stats_reply \<times> counter list" where
  "counters_loop s [] stats = (stats, [])"
| "counters_loop s (c # cs) stats =
     (if counter_used c
      then
        (case latch c of
           (latched_value, c') \<Rightarrow>
             (case counters_loop s cs
                     (if latched_value > 0
                      then recordDynamics s
                             (stats\<lparr>counter_deltas :=
                                (counter_deltas stats)(counter_name c \<mapsto> latched_value)\<rparr>)
                             (counter_name c) (counter_statName c)
                      else stats) of
                (stats', cs') \<Rightarrow> (stats', c' # cs')))
      else (case counters_loop s cs stats of (stats', cs') \<Rightarrow> (stats', c # cs')))"

definition exportStatsToChild :: "internal \<Rightarrow> stats_reply \<Rightarrow> stats_reply \<times> internal" where
  "exportStatsToChild i stats =
     (case counters_loop (srv i) (store_counters (srv i))
             (gauges_loop (srv i) (store_gauges (srv i)) stats) of
        (stats', cs') \<Rightarrow>
          (stats'\<lparr>memory_allocated := totalCurrentlyAllocated (srv i),
                  num_connections := numConnections (srv i)\<rparr>,
           i\<lparr>srv := (srv i)\<lparr>store_counters := cs'\<rparr>\<rparr>))"

definition empty_stats :: stats_reply where
  "empty_stats = \<lparr>gauges = Map.empty, counter_deltas = Map.empty, dynamics = Map.empty,
     memory_allocated = 0, num_connections = 0\<rparr>"




section \<open>DrainListeners and the protocol handler\<close>

definition drainListeners :: "internal \<Rightarrow> internal" where
  "drainListeners i =
     i\<lparr>srv := (srv i)\<lparr>drainListeners_calls := Suc (drainListeners_calls (srv i))\<rparr>\<rparr>"

datatype signal = SIGTERM

text \<open>\<open>HotRestartingParent\<close> and what it does to the world: the messages sent, each
  with the address it went to, and the signals the process sent to itself.\<close>

record parent =
  internal_of :: internal  \<comment> \<open>\<open>internal_\<close>\<close>
  child_address :: string  \<comment> \<open>\<open>child_address_\<close>\<close>
  sent :: "(string \<times> hot_restart_message) list"
  killed :: "signal list"  \<comment> \<open>\<open>kill(getpid(), sig)\<close>\<close>

definition sendHotRestartMessage :: "string \<Rightarrow> hot_restart_message \<Rightarrow> parent \<Rightarrow> parent" where
  "sendHotRestartMessage addr m p = p\<lparr>sent := sent p @ [(addr, m)]\<rparr>"

definition didnt_recognize :: hot_restart_message where
  "didnt_recognize =
     \<lparr>requestreply = REQUESTREPLY_NOT_SET, didnt_recognize_your_last_message = True\<rparr>"

text \<open>The body of the loop of \<open>onSocketEvent\<close> for one received message. An
  exception of an operation leaves the loop and the function.\<close>

definition handle_message :: "hot_restart_message \<Rightarrow> parent \<Rightarrow> error + parent" where
  "handle_message wrapped_request p =
     (case requestreply wrapped_request of
        kReply r \<Rightarrow> Inr (sendHotRestartMessage (child_address p) didnt_recognize p)
      | _ \<Rightarrow>
        (case request_of wrapped_request of
           kShutdownAdmin \<Rightarrow>
             (case shutdownAdmin (internal_of p) of
                (m, i') \<Rightarrow> Inr (sendHotRestartMessage (child_address p) m (p\<lparr>internal_of := i'\<rparr>)))
         | kPassListenSocket a w \<Rightarrow>
             (case getListenSocketsForChild (internal_of p) (request_of wrapped_request) of
                Inl e \<Rightarrow> Inl e
              | Inr m \<Rightarrow> Inr (sendHotRestartMessage (child_address p) m p))
         | kPassConnectionSocket \<Rightarrow>
             (case getConnectionSocketsForChild (internal_of p) (request_of wrapped_request) of
                (m, i') \<Rightarrow> Inr (sendHotRestartMessage (child_address p) m (p\<lparr>internal_of := i'\<rparr>)))
         | kPassConnectionData c \<Rightarrow>
             (case getConnectionDataForChild (internal_of p) (request_of wrapped_request) of
                (m, i') \<Rightarrow> Inr (sendHotRestartMessage (child_address p) m (p\<lparr>internal_of := i'\<rparr>)))
         | kStats \<Rightarrow>
             (case exportStatsToChild (internal_of p) empty_stats of
                (stats, i') \<Rightarrow>
                  Inr (sendHotRestartMessage (child_address p) (wrapped_reply (ReplyStats stats))
                         (p\<lparr>internal_of := i'\<rparr>)))
         | kDrainListeners \<Rightarrow> Inr (p\<lparr>internal_of := drainListeners (internal_of p)\<rparr>)
         | kTerminate \<Rightarrow> Inr (p\<lparr>killed := killed p @ [SIGTERM]\<rparr>)
         | REQUEST_NOT_SET \<Rightarrow>
             Inr (sendHotRestartMessage (child_address p) didnt_recognize p)))"

text \<open>\<open>onSocketEvent\<close>: the loop takes the received messages one by one until none
  is left.\<close>

fun onSocketEvent :: "hot_restart_message list \<Rightarrow> parent \<Rightarrow> error + parent" where
  "onSocketEvent [] p = Inr p"
| "onSocketEvent (wrapped_request # received) p =
     (case handle_message wrapped_request p of
        Inl e \<Rightarrow> Inl e
      | Inr p' \<Rightarrow> onSocketEvent received p')"



section \<open>Example inputs\<close>

text \<open>A small server: one listener at port 80 that two workers serve, and one worker
  with four connections, of which the second is not a TCP connection and the fourth is
  closed. Handle \<open>n\<close> has descriptor \<open>n + 10\<close> and a peer address of its own.\<close>

definition example_handle :: "handle_ref \<Rightarrow> io_handle" where
  "example_handle n =
     \<lparr>fdDoNotUse = int n + 10, isOpen = (n \<noteq> 2), io_localAddress = ''10.0.0.1:80'',
      io_peerAddress = ''10.0.0.2:'' @ replicate (Suc n) (CHR ''7''),
      read_ok = True, read_data = ''GET''\<rparr>"

definition example_server :: server where
  "example_server =
     \<lparr>listeners =
        [\<lparr>localAddress = ''10.0.0.1:80'', bindToPort = True,
          getListenSocket = (\<lambda>w. 7 + uint w)\<rparr>],
      concurrency = 2,
      resolveUrl = (\<lambda>url. if url = ''tcp://10.0.0.1:80'' then Some ''10.0.0.1:80'' else None),
      workers =
        [[(0, None),
          (1, Some [(0, [Some \<lparr>ioHandle = 0, getReadBuffer = ''abc''\<rparr>, None,
                         Some \<lparr>ioHandle = 1, getReadBuffer = []\<rparr>,
                         Some \<lparr>ioHandle = 2, getReadBuffer = []\<rparr>])])]],
      io_handles = example_handle,
      read_disable_posted = [],
      store_gauges =
        [\<lparr>gauge_used = True, gauge_name = ''g.on'', gauge_value = 3, gauge_statName = [1]\<rparr>,
         \<lparr>gauge_used = False, gauge_name = ''g.off'', gauge_value = 4, gauge_statName = [2]\<rparr>],
      store_counters =
        [\<lparr>counter_used = True, counter_name = ''c.hit'', pending_increment = 5,
          counter_statName = [3]\<rparr>,
         \<lparr>counter_used = True, counter_name = ''c.idle'', pending_increment = 0,
          counter_statName = [4]\<rparr>,
         \<lparr>counter_used = False, counter_name = ''c.off'', pending_increment = 6,
          counter_statName = [5]\<rparr>],
      getDynamicSpans = (\<lambda>n. if n = [3] then [(1, 1)] else []),
      totalCurrentlyAllocated = 4096,
      numConnections = 3,
      startTimeFirstEpoch = 1700000000,
      enableReusePortDefault = True,
      shutdownAdmin_calls = 0,
      drainListeners_calls = 0\<rparr>"

definition example_internal :: internal where
  "example_internal = \<lparr>srv = example_server, handlers = Map.empty\<rparr>"

definition example_parent :: parent where
  "example_parent =
     \<lparr>internal_of = example_internal, child_address = ''child'', sent = [], killed = []\<rparr>"

text \<open>A server with two used counters of one name, as two counters with different stat
  names can have.\<close>

definition twin_counters_internal :: internal where
  "twin_counters_internal =
     \<lparr>srv = example_server
        \<lparr>store_counters :=
           [\<lparr>counter_used = True, counter_name = ''c'', pending_increment = 9,
             counter_statName = [6]\<rparr>,
            \<lparr>counter_used = True, counter_name = ''c'', pending_increment = 7,
             counter_statName = [7]\<rparr>]\<rparr>,
      handlers = Map.empty\<rparr>"

text \<open>A server with \<open>n\<close> open TCP connections, none of them registered.\<close>

definition crowded_server :: "nat \<Rightarrow> server" where
  "crowded_server n =
     example_server
       \<lparr>workers := [[(0, Some [(0, map (\<lambda>k. Some \<lparr>ioHandle = k, getReadBuffer = []\<rparr>) [0..<n])])]],
        io_handles := (\<lambda>k. (example_handle k)\<lparr>isOpen := True\<rparr>)\<rparr>"

definition crowded_internal :: "nat \<Rightarrow> internal" where
  "crowded_internal n = \<lparr>srv = crowded_server n, handlers = Map.empty\<rparr>"


section \<open>The scan of the connections, loop by loop\<close>

lemma connections_loop_append:
  "connections_loop heap (xs @ ys) st =
     (case connections_loop heap xs st of
        (st', returned) \<Rightarrow> if returned then (st', True) else connections_loop heap ys st')"
  by (induction xs arbitrary: st) (auto split: prod.splits)

lemma contexts_loop_flat:
  "contexts_loop heap conts st = connections_loop heap (concat (map snd conts)) st"
  by (induction conts arbitrary: st) (auto simp: connections_loop_append split: prod.splits)

lemma listeners_loop_flat:
  "listeners_loop heap lss st = connections_loop heap (concat (map listener_connections lss)) st"
  by (induction lss arbitrary: st)
     (auto simp: connections_loop_append contexts_loop_flat listener_connections_def
           split: prod.splits option.splits)

lemma workers_loop_flat:
  "workers_loop heap wkrs st = connections_loop heap (all_connections wkrs) st"
  by (induction wkrs arbitrary: st)
     (auto simp: connections_loop_append listeners_loop_flat all_connections_def
           split: prod.splits)

lemma register_keeps: "reg k \<noteq> None \<Longrightarrow> register heap reg scs k \<noteq> None"
  by (induction scs arbitrary: reg) auto

lemma register_append:
  "register heap reg (xs @ ys) = register heap (register heap reg xs) ys"
  by (induction xs arbitrary: reg) auto

lemma dom_register:
  "dom (register heap reg scs) = dom reg \<union> key_of heap ` set scs"
  by (induction scs arbitrary: reg) (auto simp: key_of_def)

lemma eligible_unregistered:
  "sc \<in> set (eligible heap reg cons) \<Longrightarrow> reg (key_of heap sc) = None"
proof (induction cons arbitrary: reg)
  case Nil
  then show ?case by simp
next
  case (Cons con cons)
  show ?case
  proof (cases con)
    case None
    with Cons show ?thesis by simp
  next
    case (Some a)
    let ?k = "connection_key (heap (ioHandle a))"
    show ?thesis
    proof (cases "isOpen (heap (ioHandle a)) \<and> reg ?k = None")
      case False
      with Some Cons.prems have "sc \<in> set (eligible heap reg cons)" by auto
      then show ?thesis by (rule Cons.IH)
    next
      case True
      with Some Cons.prems
      consider "sc = a" | "sc \<in> set (eligible heap (reg(?k \<mapsto> ioHandle a)) cons)"
        by auto
      then show ?thesis
      proof cases
        case 1
        with True show ?thesis by (simp add: key_of_def)
      next
        case 2
        then have "(reg(?k \<mapsto> ioHandle a)) (key_of heap sc) = None" by (rule Cons.IH)
        then show ?thesis by (simp split: if_splits)
      qed
    qed
  qed
qed

lemma eligible_open:
  "sc \<in> set (eligible heap reg cons) \<Longrightarrow> Some sc \<in> set cons \<and> isOpen (heap (ioHandle sc))"
proof (induction cons arbitrary: reg)
  case Nil
  then show ?case by simp
next
  case (Cons con cons)
  show ?case
  proof (cases con)
    case None
    with Cons show ?thesis by auto
  next
    case (Some a)
    with Cons show ?thesis
      by (auto split: if_splits)
  qed
qed

lemma eligible_distinct: "distinct (map (key_of heap) (eligible heap reg cons))"
proof (induction cons arbitrary: reg)
  case Nil
  then show ?case by simp
next
  case (Cons con cons)
  show ?case
  proof (cases con)
    case None
    with Cons show ?thesis by simp
  next
    case (Some a)
    let ?k = "connection_key (heap (ioHandle a))"
    have "key_of heap a \<notin> key_of heap ` set (eligible heap (reg(?k \<mapsto> ioHandle a)) cons)"
    proof
      assume "key_of heap a \<in> key_of heap ` set (eligible heap (reg(?k \<mapsto> ioHandle a)) cons)"
      then obtain sc where sc: "sc \<in> set (eligible heap (reg(?k \<mapsto> ioHandle a)) cons)"
        and k: "key_of heap sc = key_of heap a" by auto
      from eligible_unregistered [OF sc] k show False by (simp add: key_of_def)
    qed
    with Some Cons.IH show ?thesis by simp
  qed
qed

lemma eligible_drop:
  "eligible heap (register heap reg (take n (eligible heap reg cons))) cons
     = drop n (eligible heap reg cons)"
proof (induction cons arbitrary: reg n)
  case Nil
  then show ?case by simp
next
  case (Cons con cons)
  show ?case
  proof (cases con)
    case None
    with Cons show ?thesis by simp
  next
    case (Some sc)
    let ?k = "connection_key (heap (ioHandle sc))"
    show ?thesis
    proof (cases "isOpen (heap (ioHandle sc)) \<and> reg ?k = None")
      case False
      then have "reg ?k = None \<Longrightarrow> \<not> isOpen (heap (ioHandle sc))" by simp
      moreover have "reg ?k \<noteq> None \<Longrightarrow> register heap reg (take n (eligible heap reg cons)) ?k \<noteq> None"
        by (rule register_keeps)
      ultimately show ?thesis using Some False Cons.IH [of reg n]
        by auto
    next
      case True
      show ?thesis
      proof (cases n)
        case 0
        with Some True show ?thesis by simp
      next
        case (Suc m)
        let ?reg1 = "reg(?k \<mapsto> ioHandle sc)"
        let ?reg2 = "register heap ?reg1 (take m (eligible heap ?reg1 cons))"
        have el: "eligible heap reg (con # cons) = sc # eligible heap ?reg1 cons"
          using Some True by simp
        have "?reg1 ?k \<noteq> None" by simp
        then have "?reg2 ?k \<noteq> None" by (rule register_keeps)
        then obtain y where "?reg2 ?k = Some y" by auto
        then have "eligible heap ?reg2 (con # cons) = eligible heap ?reg2 cons"
          using Some by simp
        also have "\<dots> = drop m (eligible heap ?reg1 cons)" by (rule Cons.IH)
        finally show ?thesis unfolding el Suc by simp
      qed
    qed
  qed
qed

lemma connections_loop_eligible:
  assumes "length (sockets st) < MAX_FD_SIZE"
    and "connections_loop heap cons st = (st', returned)"
  shows "sockets st' = sockets st @ map (socket_of heap)
            (take (MAX_FD_SIZE - length (sockets st)) (eligible heap (registry st) cons))
        \<and> registry st' = register heap (registry st)
            (take (MAX_FD_SIZE - length (sockets st)) (eligible heap (registry st) cons))
        \<and> returned = (MAX_FD_SIZE - length (sockets st) \<le> length (eligible heap (registry st) cons))
        \<and> has_more_fd st' = (has_more_fd st \<or> returned)"
  using assms
proof (induction cons arbitrary: st)
  case Nil
  then show ?case by auto
next
  case (Cons con cons)
  show ?case
  proof (cases con)
    case None
    with Cons show ?thesis by simp
  next
    case (Some sc)
    let ?h = "heap (ioHandle sc)"
    let ?k = "connection_key ?h"
    show ?thesis
    proof (cases "isOpen ?h \<and> registry st ?k = None")
      case False
      define st1 where "st1 = (if isOpen ?h then st\<lparr>posted := posted st @ [ioHandle sc]\<rparr> else st)"
      have step: "scan_connection heap con st = (st1, False)"
        using False Some by (auto simp: st1_def Let_def)
      have same: "sockets st1 = sockets st" "registry st1 = registry st" "has_more_fd st1 = has_more_fd st"
        by (simp_all add: st1_def)
      from Cons.prems step have "connections_loop heap cons st1 = (st', returned)" by simp
      from Cons.IH [OF _ this] Cons.prems(1) same False Some show ?thesis
        by auto
    next
      case True
      define st2 where "st2 = st\<lparr>posted := posted st @ [ioHandle sc],
         sockets := sockets st @ [socket_of heap sc], registry := (registry st)(?k \<mapsto> ioHandle sc)\<rparr>"
      have st2: "sockets st2 = sockets st @ [socket_of heap sc]"
        "registry st2 = (registry st)(?k \<mapsto> ioHandle sc)" "has_more_fd st2 = has_more_fd st"
        by (simp_all add: st2_def)
      have el: "eligible heap (registry st) (con # cons)
          = sc # eligible heap ((registry st)(?k \<mapsto> ioHandle sc)) cons"
        using True Some by simp
      show ?thesis
      proof (cases "MAX_FD_SIZE \<le> Suc (length (sockets st))")
        case full: True
        have step: "scan_connection heap con st = (st2\<lparr>has_more_fd := True\<rparr>, True)"
          using True Some full by (simp add: st2_def Let_def socket_of_def)
        with Cons.prems have "st' = st2\<lparr>has_more_fd := True\<rparr>" "returned" by auto
        moreover from full Cons.prems(1) have "MAX_FD_SIZE - length (sockets st) = Suc 0" by simp
        ultimately show ?thesis unfolding el
          by (simp add: st2)
      next
        case notfull: False
        have step: "scan_connection heap con st = (st2, False)"
          using True Some notfull by (simp add: st2_def Let_def socket_of_def)
        with Cons.prems have loop: "connections_loop heap cons st2 = (st', returned)" by simp
        have len: "length (sockets st2) < MAX_FD_SIZE" using notfull by (simp add: st2)
        have m: "MAX_FD_SIZE - length (sockets st) = Suc (MAX_FD_SIZE - length (sockets st2))"
          using notfull by (simp add: st2)
        from Cons.IH [OF len loop] show ?thesis
          unfolding m el by (simp add: st2(1,3) st2(2) [symmetric])
      qed
    qed
  qed
qed


lemma eligible_nonempty:
  "Some sc \<in> set cons \<Longrightarrow> isOpen (heap (ioHandle sc)) \<Longrightarrow> reg (key_of heap sc) = None
     \<Longrightarrow> eligible heap reg cons \<noteq> []"
proof (induction cons arbitrary: reg)
  case Nil
  then show ?case by simp
next
  case (Cons con cons)
  show ?case
  proof (cases con)
    case None
    with Cons show ?thesis by simp
  next
    case (Some a)
    show ?thesis
    proof (cases "isOpen (heap (ioHandle a)) \<and> reg (connection_key (heap (ioHandle a))) = None")
      case True
      with Some show ?thesis by simp
    next
      case False
      with Cons.prems Some have "Some sc \<in> set cons" by (auto simp: key_of_def)
      from Cons.IH [of reg, OF this Cons.prems(2,3)] False Some show ?thesis by auto
    qed
  qed
qed

lemma register_other:
  "k \<notin> key_of heap ` set scs \<Longrightarrow> register heap reg scs k = reg k"
  by (induction scs arbitrary: reg) (auto simp: key_of_def)

lemma register_distinct:
  "distinct (map (key_of heap) scs) \<Longrightarrow> sc \<in> set scs
     \<Longrightarrow> register heap reg scs (key_of heap sc) = Some (ioHandle sc)"
proof (induction scs arbitrary: reg)
  case Nil
  then show ?case by simp
next
  case (Cons a scs)
  show ?case
  proof (cases "sc \<in> set scs")
    case True
    with Cons show ?thesis by simp
  next
    case False
    with Cons.prems have a: "sc = a" by simp
    from Cons.prems(1) have "key_of heap a \<notin> key_of heap ` set scs" by simp
    then have "register heap (reg(key_of heap a \<mapsto> ioHandle a)) scs (key_of heap a)
        = (reg(key_of heap a \<mapsto> ioHandle a)) (key_of heap a)"
      by (rule register_other)
    with a show ?thesis by (simp add: key_of_def)
  qed
qed

text \<open>What one handoff request gives, in terms of the eligible connections.\<close>

lemma handoff_result:
  assumes "getConnectionSocketsForChild i request = (m, i')"
  shows "reply_sockets m = map (socket_of (io_handles (srv i))) (exported i)"
    and "reply_has_more_fd m = (MAX_FD_SIZE \<le> length (remaining i))"
    and "handlers i' = register (io_handles (srv i)) (handlers i) (exported i)"
    and "workers (srv i') = workers (srv i)"
    and "io_handles (srv i') = io_handles (srv i)"
proof -
  let ?st0 = "\<lparr>sockets = [], has_more_fd = False, registry = handlers i,
                posted = read_disable_posted (srv i)\<rparr>"
  obtain st returned where loop:
    "connections_loop (io_handles (srv i)) (all_connections (workers (srv i))) ?st0 = (st, returned)"
    by (cases "connections_loop (io_handles (srv i)) (all_connections (workers (srv i))) ?st0")
  have len: "length (sockets ?st0) < MAX_FD_SIZE" by (simp add: MAX_FD_SIZE_def)
  from connections_loop_eligible [OF len loop]
  have st: "sockets st = map (socket_of (io_handles (srv i))) (exported i)"
    "registry st = register (io_handles (srv i)) (handlers i) (exported i)"
    "has_more_fd st = (MAX_FD_SIZE \<le> length (remaining i))"
    by (simp_all add: exported_def remaining_def)
  from assms loop have m: "m = wrapped_reply (ReplyPassConnectionSocket (sockets st) (has_more_fd st))"
    and i': "i' = i\<lparr>srv := (srv i)\<lparr>read_disable_posted := posted st\<rparr>, handlers := registry st\<rparr>"
    by (simp_all add: getConnectionSocketsForChild_def workers_loop_flat Let_def)
  show "reply_sockets m = map (socket_of (io_handles (srv i))) (exported i)"
    by (simp add: m wrapped_reply_def st)
  show "reply_has_more_fd m = (MAX_FD_SIZE \<le> length (remaining i))"
    by (simp add: m wrapped_reply_def st)
  show "handlers i' = register (io_handles (srv i)) (handlers i) (exported i)"
    by (simp add: i' st)
  show "workers (srv i') = workers (srv i)" by (simp add: i')
  show "io_handles (srv i') = io_handles (srv i)" by (simp add: i')
qed

lemma remaining_after:
  assumes "getConnectionSocketsForChild i request = (m, i')"
  shows "remaining i' = drop MAX_FD_SIZE (remaining i)"
  using handoff_result(3-5) [OF assms]
  by (simp add: remaining_def exported_def eligible_drop)


lemma eligible_all:
  "\<forall>sc \<in> set scs. isOpen (heap (ioHandle sc)) \<and> reg (key_of heap sc) = None
    \<Longrightarrow> distinct (map (key_of heap) scs) \<Longrightarrow> eligible heap reg (map Some scs) = scs"
proof (induction scs arbitrary: reg)
  case Nil
  then show ?case by simp
next
  case (Cons a scs)
  have "\<forall>sc \<in> set scs. isOpen (heap (ioHandle sc))
          \<and> (reg(key_of heap a \<mapsto> ioHandle a)) (key_of heap sc) = None"
    using Cons.prems by (auto simp: image_iff)
  then have "eligible heap (reg(key_of heap a \<mapsto> ioHandle a)) (map Some scs) = scs"
    using Cons.prems(2) by (intro Cons.IH) simp_all
  with Cons.prems(1) show ?case by (simp add: key_of_def)
qed

lemma crowded_keys_distinct:
  "distinct (map (key_of (\<lambda>k. (example_handle k)\<lparr>isOpen := True\<rparr>))
     (map (\<lambda>k. \<lparr>ioHandle = k, getReadBuffer = []\<rparr>) [0..<n]))"
proof -
  have "inj_on (\<lambda>k. ''10.0.0.1:80_10.0.0.2:'' @ replicate (Suc k) (CHR ''7'')) (set [0..<n])"
  proof (rule inj_onI)
    fix x y :: nat
    assume "''10.0.0.1:80_10.0.0.2:'' @ replicate (Suc x) (CHR ''7'')
          = ''10.0.0.1:80_10.0.0.2:'' @ replicate (Suc y) (CHR ''7'')"
    then have "length (replicate (Suc x) (CHR ''7'')) = length (replicate (Suc y) (CHR ''7''))"
      by (simp del: replicate_Suc)
    then show "x = y" by simp
  qed
  then have "distinct (map (\<lambda>k. ''10.0.0.1:80_10.0.0.2:'' @ replicate (Suc k) (CHR ''7'')) [0..<n])"
    by (simp add: distinct_map)
  then show ?thesis
    by (simp add: key_of_def connection_key_def example_handle_def comp_def)
qed

lemma remaining_crowded:
  "remaining (crowded_internal n) = map (\<lambda>k. \<lparr>ioHandle = k, getReadBuffer = []\<rparr>) [0..<n]"
proof -
  let ?scs = "map (\<lambda>k. \<lparr>ioHandle = k, getReadBuffer = []\<rparr>) [0..<n]"
  let ?heap = "\<lambda>k. (example_handle k)\<lparr>isOpen := True\<rparr>"
  have conns: "all_connections (workers (crowded_server n)) = map Some ?scs"
    by (simp add: crowded_server_def all_connections_def listener_connections_def)
  have "eligible ?heap Map.empty (map Some ?scs) = ?scs"
    by (rule eligible_all [OF _ crowded_keys_distinct]) simp
  then show ?thesis
    by (simp add: remaining_def crowded_internal_def conns) (simp add: crowded_server_def)
qed

lemma handoff_keys_fresh:
  "distinct (concat (handoff_keys i ss))
   \<and> (\<forall>k \<in> set (concat (handoff_keys i ss)). handlers i k = None)"
proof (induction ss arbitrary: i)
  case Nil
  show ?case by simp
next
  case (Cons s ss)
  let ?i0 = "i\<lparr>srv := s\<rparr>"
  let ?keys = "map (key_of (io_handles s)) (exported ?i0)"
  let ?i1 = "snd (getConnectionSocketsForChild ?i0 kPassConnectionSocket)"
  have run: "getConnectionSocketsForChild ?i0 kPassConnectionSocket
      = (fst (getConnectionSocketsForChild ?i0 kPassConnectionSocket), ?i1)"
    by simp
  have d: "distinct ?keys"
    using distinct_take [OF eligible_distinct
        [of "io_handles s" "handlers i" "all_connections (workers s)"], of MAX_FD_SIZE]
    by (simp add: exported_def remaining_def take_map)
  have fresh: "\<forall>k \<in> set ?keys. handlers i k = None"
  proof
    fix k assume "k \<in> set ?keys"
    then obtain sc where sc: "sc \<in> set (exported ?i0)" and k: "k = key_of (io_handles s) sc"
      by auto
    from sc have "sc \<in> set (eligible (io_handles s) (handlers i) (all_connections (workers s)))"
      by (auto simp: exported_def remaining_def dest: in_set_takeD)
    then show "handlers i k = None" unfolding k by (rule eligible_unregistered)
  qed
  have dom1: "dom (handlers ?i1) = dom (handlers i) \<union> set ?keys"
    using handoff_result(3) [OF run] by (simp add: dom_register)
  from Cons.IH [of ?i1] have rest: "distinct (concat (handoff_keys ?i1 ss))"
    and rest_fresh: "\<forall>k \<in> set (concat (handoff_keys ?i1 ss)). handlers ?i1 k = None"
    by simp_all
  have disj: "set ?keys \<inter> set (concat (handoff_keys ?i1 ss)) = {}"
  proof (rule ccontr)
    assume "set ?keys \<inter> set (concat (handoff_keys ?i1 ss)) \<noteq> {}"
    then obtain k where k1: "k \<in> set ?keys" and k2: "k \<in> set (concat (handoff_keys ?i1 ss))"
      by blast
    from k1 dom1 have "k \<in> dom (handlers ?i1)" by blast
    moreover from k2 rest_fresh have "handlers ?i1 k = None" by blast
    ultimately show False by auto
  qed
  have old: "\<forall>k \<in> set (concat (handoff_keys ?i1 ss)). handlers i k = None"
  proof
    fix k assume "k \<in> set (concat (handoff_keys ?i1 ss))"
    with rest_fresh have "k \<notin> dom (handlers ?i1)" by auto
    with dom1 show "handlers i k = None" by auto
  qed
  define ks where "ks = ?keys"
  define rs where "rs = concat (handoff_keys ?i1 ss)"
  have split: "concat (handoff_keys i (s # ss)) = ks @ rs"
    by (simp add: ks_def rs_def)
  have "distinct (ks @ rs)"
    using d rest disj unfolding ks_def [symmetric] rs_def [symmetric] by simp
  moreover have "\<forall>k \<in> set (ks @ rs). handlers i k = None"
    using fresh old unfolding ks_def [symmetric] rs_def [symmetric] by auto
  ultimately show ?case unfolding split by blast
qed


section \<open>The batches of connection sockets\<close>

text \<open>
  Claim C1. The batch of a PassConnectionSocket reply has at most 100 entries. If, when
  the reply is made, some open TCP connection of a worker is still not in the registry,
  the flag \<open>has_more_fd\<close> of the reply is set. What is left to hand over after the
  request is what was to hand over before it without its first 100 connections, and the
  same request sent again hands over the first 100 of those.
\<close>

theorem connection_batch_bounded:
  assumes "getConnectionSocketsForChild i request = (m, i')"
  shows "length (reply_sockets m) \<le> 100
    \<and> ((\<exists>sc. Some sc \<in> set (all_connections (workers (srv i')))
              \<and> isOpen (io_handles (srv i') (ioHandle sc))
              \<and> handlers i' (key_of (io_handles (srv i')) sc) = None)
         \<longrightarrow> reply_has_more_fd m)
    \<and> remaining i' = drop 100 (remaining i)
    \<and> reply_sockets (fst (getConnectionSocketsForChild i' request))
         = map (socket_of (io_handles (srv i'))) (take 100 (remaining i'))"
proof -
  have len: "length (reply_sockets m) \<le> 100"
    using handoff_result(1) [OF assms] by (simp add: exported_def MAX_FD_SIZE_def)
  have rem: "remaining i' = drop 100 (remaining i)"
    using remaining_after [OF assms] by (simp add: MAX_FD_SIZE_def)
  have more: "reply_has_more_fd m"
    if "\<exists>sc. Some sc \<in> set (all_connections (workers (srv i')))
              \<and> isOpen (io_handles (srv i') (ioHandle sc))
              \<and> handlers i' (key_of (io_handles (srv i')) sc) = None"
  proof -
    from that obtain sc where "Some sc \<in> set (all_connections (workers (srv i')))"
      "isOpen (io_handles (srv i') (ioHandle sc))"
      "handlers i' (key_of (io_handles (srv i')) sc) = None"
      by blast
    then have "remaining i' \<noteq> []"
      unfolding remaining_def by (rule eligible_nonempty)
    with rem have "100 < length (remaining i)" by simp
    with handoff_result(2) [OF assms] show ?thesis by (simp add: MAX_FD_SIZE_def)
  qed
  have again: "getConnectionSocketsForChild i' request
      = (fst (getConnectionSocketsForChild i' request), snd (getConnectionSocketsForChild i' request))"
    by simp
  have next_batch: "reply_sockets (fst (getConnectionSocketsForChild i' request))
         = map (socket_of (io_handles (srv i'))) (take 100 (remaining i'))"
    using handoff_result(1) [OF again] by (simp add: exported_def MAX_FD_SIZE_def)
  from len more rem next_batch show ?thesis by blast
qed

lemma exported_crowded:
  "n \<le> m \<Longrightarrow> take n (remaining (crowded_internal m))
     = map (\<lambda>k. \<lparr>ioHandle = k, getReadBuffer = []\<rparr>) [0..<n]"
  by (simp add: remaining_crowded take_map take_upt)

text \<open>A server with 101 connections: after the first request one is left and the flag
  is set.\<close>

theorem connection_batch_bounded_witness:
  "(\<exists>sc. Some sc \<in> set (all_connections (workers (srv
            (snd (getConnectionSocketsForChild (crowded_internal 101) kPassConnectionSocket)))))
        \<and> isOpen (io_handles (srv
            (snd (getConnectionSocketsForChild (crowded_internal 101) kPassConnectionSocket)))
              (ioHandle sc))
        \<and> handlers (snd (getConnectionSocketsForChild (crowded_internal 101) kPassConnectionSocket))
            (key_of (io_handles (srv
              (snd (getConnectionSocketsForChild (crowded_internal 101) kPassConnectionSocket)))) sc)
            = None)
   \<and> reply_has_more_fd (fst (getConnectionSocketsForChild (crowded_internal 101) kPassConnectionSocket))
   \<and> length (reply_sockets
        (fst (getConnectionSocketsForChild (crowded_internal 101) kPassConnectionSocket))) \<le> 100
   \<and> remaining (snd (getConnectionSocketsForChild (crowded_internal 101) kPassConnectionSocket))
        = [\<lparr>ioHandle = 100, getReadBuffer = []\<rparr>]"
proof -
  let ?i = "crowded_internal 101"
  let ?m = "fst (getConnectionSocketsForChild ?i kPassConnectionSocket)"
  let ?i' = "snd (getConnectionSocketsForChild ?i kPassConnectionSocket)"
  let ?sc = "\<lparr>ioHandle = 100, getReadBuffer = []\<rparr>"
  let ?heap = "\<lambda>k. (example_handle k)\<lparr>isOpen := True\<rparr>"
  have run: "getConnectionSocketsForChild ?i kPassConnectionSocket = (?m, ?i')" by simp
  have w: "workers (srv ?i') = workers (crowded_server 101)"
    and h: "io_handles (srv ?i') = ?heap"
    using handoff_result(4,5) [OF run] by (simp_all add: crowded_internal_def crowded_server_def)
  have "Some ?sc \<in> set (all_connections (workers (crowded_server 101)))"
    by (simp add: crowded_server_def all_connections_def listener_connections_def)
  then have mem: "Some ?sc \<in> set (all_connections (workers (srv ?i')))"
    by (simp only: w)
  have opn: "isOpen (io_handles (srv ?i') (ioHandle ?sc))"
    by (simp add: h)
  have ex: "exported ?i = map (\<lambda>k. \<lparr>ioHandle = k, getReadBuffer = []\<rparr>) [0..<100]"
    unfolding exported_def MAX_FD_SIZE_def by (rule exported_crowded) simp
  have "distinct (map (key_of ?heap) (map (\<lambda>k. \<lparr>ioHandle = k, getReadBuffer = []\<rparr>) [0..<101]))"
    by (rule crowded_keys_distinct)
  moreover have "[0..<101] = [0..<100] @ [100]"
    using upt_Suc_append [of 0 100] by simp
  ultimately have "key_of ?heap ?sc \<notin> key_of ?heap ` set (exported ?i)"
    unfolding ex by (simp only: map_append distinct_append) auto
  then have "register ?heap (handlers ?i) (exported ?i) (key_of ?heap ?sc)
      = handlers ?i (key_of ?heap ?sc)"
    by (rule register_other)
  also have "\<dots> = None" by (simp add: crowded_internal_def)
  finally have r: "register ?heap (handlers ?i) (exported ?i) (key_of ?heap ?sc) = None" .
  have "io_handles (srv ?i) = ?heap" by (simp add: crowded_internal_def crowded_server_def)
  with handoff_result(3) [OF run]
  have "handlers ?i' = register ?heap (handlers ?i) (exported ?i)" by (simp only:)
  with r have "handlers ?i' (key_of ?heap ?sc) = None" by (simp only:)
  then have unreg: "handlers ?i' (key_of (io_handles (srv ?i')) ?sc) = None"
    by (simp only: h)
  from mem opn unreg
  have hyp: "\<exists>sc. Some sc \<in> set (all_connections (workers (srv ?i')))
        \<and> isOpen (io_handles (srv ?i') (ioHandle sc))
        \<and> handlers ?i' (key_of (io_handles (srv ?i')) sc) = None"
    by blast
  have "drop 100 (remaining ?i) = [?sc]"
    by (simp add: remaining_crowded drop_map drop_upt)
  with connection_batch_bounded [OF run] hyp show ?thesis
    by simp
qed

text \<open>
  Claim C10. A reply that holds \<open>MAX_FD_SIZE\<close> sockets has the flag set, whether or not
  a connection is left. So when exactly \<open>MAX_FD_SIZE\<close> connections are to be handed
  over, the reply holds all of them with the flag set, nothing is left, and the request
  that follows gets an empty batch with the flag unset.
\<close>

theorem batch_full_sets_has_more:
  assumes "getConnectionSocketsForChild i request = (m, i')"
    and "getConnectionSocketsForChild i' request = (m', i'')"
  shows "(length (reply_sockets m) = MAX_FD_SIZE \<longrightarrow> reply_has_more_fd m)
    \<and> (length (remaining i) = MAX_FD_SIZE \<longrightarrow>
          length (reply_sockets m) = MAX_FD_SIZE \<and> reply_has_more_fd m \<and> remaining i' = []
          \<and> reply_sockets m' = [] \<and> \<not> reply_has_more_fd m')"
proof -
  have first: "reply_has_more_fd m" if "length (reply_sockets m) = MAX_FD_SIZE"
  proof -
    from that handoff_result(1) [OF assms(1)] have "MAX_FD_SIZE \<le> length (remaining i)"
      by (simp add: exported_def)
    with handoff_result(2) [OF assms(1)] show ?thesis by simp
  qed
  have exact: "length (reply_sockets m) = MAX_FD_SIZE \<and> reply_has_more_fd m \<and> remaining i' = []
          \<and> reply_sockets m' = [] \<and> \<not> reply_has_more_fd m'"
    if full: "length (remaining i) = MAX_FD_SIZE"
  proof -
    have 1: "length (reply_sockets m) = MAX_FD_SIZE"
      using handoff_result(1) [OF assms(1)] full by (simp add: exported_def)
    have 2: "reply_has_more_fd m"
      using handoff_result(2) [OF assms(1)] full by simp
    have 3: "remaining i' = []"
      using remaining_after [OF assms(1)] full by simp
    have 4: "reply_sockets m' = []"
      using handoff_result(1) [OF assms(2)] 3 by (simp add: exported_def)
    have 5: "\<not> reply_has_more_fd m'"
      using handoff_result(2) [OF assms(2)] 3 by (simp add: MAX_FD_SIZE_def)
    from 1 2 3 4 5 show ?thesis by blast
  qed
  from first exact show ?thesis by blast
qed

text \<open>A server with exactly 100 connections.\<close>

theorem batch_full_sets_has_more_witness:
  "length (remaining (crowded_internal 100)) = MAX_FD_SIZE
   \<and> MAX_FD_SIZE = 100
   \<and> length (reply_sockets
        (fst (getConnectionSocketsForChild (crowded_internal 100) kPassConnectionSocket))) = 100
   \<and> reply_has_more_fd
        (fst (getConnectionSocketsForChild (crowded_internal 100) kPassConnectionSocket))
   \<and> reply_sockets (fst (getConnectionSocketsForChild
        (snd (getConnectionSocketsForChild (crowded_internal 100) kPassConnectionSocket))
        kPassConnectionSocket)) = []
   \<and> \<not> reply_has_more_fd (fst (getConnectionSocketsForChild
        (snd (getConnectionSocketsForChild (crowded_internal 100) kPassConnectionSocket))
        kPassConnectionSocket))"
proof -
  let ?i = "crowded_internal 100"
  let ?r = "getConnectionSocketsForChild ?i kPassConnectionSocket"
  let ?r' = "getConnectionSocketsForChild (snd ?r) kPassConnectionSocket"
  have run: "?r = (fst ?r, snd ?r)" and run': "?r' = (fst ?r', snd ?r')" by simp_all
  have full: "length (remaining ?i) = MAX_FD_SIZE"
    by (simp add: remaining_crowded MAX_FD_SIZE_def)
  from batch_full_sets_has_more [OF run run'] full show ?thesis
    by (simp add: MAX_FD_SIZE_def)
qed

text \<open>
  Claim C2. The sockets of a reply are those of the connections handed over by the
  request, in order. These connections have keys that differ from one another and were
  not in the registry before the request; after it each key is registered with the handle
  of its connection, and no earlier entry of the registry has changed. Over any run of
  requests, with any server before each of them, no key is handed over twice, and no key
  that was registered before the run is handed over at all.
\<close>

theorem connection_exported_once:
  "reply_sockets (fst (getConnectionSocketsForChild i request))
      = map (socket_of (io_handles (srv i))) (exported i)
   \<and> distinct (map (key_of (io_handles (srv i))) (exported i))
   \<and> (\<forall>sc \<in> set (exported i).
         handlers i (key_of (io_handles (srv i)) sc) = None
         \<and> handlers (snd (getConnectionSocketsForChild i request)) (key_of (io_handles (srv i)) sc)
             = Some (ioHandle sc))
   \<and> (\<forall>k. handlers i k \<noteq> None \<longrightarrow>
         handlers (snd (getConnectionSocketsForChild i request)) k = handlers i k)
   \<and> distinct (concat (handoff_keys i ss))
   \<and> (\<forall>k \<in> set (concat (handoff_keys i ss)). handlers i k = None)"
proof -
  let ?heap = "io_handles (srv i)"
  let ?r = "getConnectionSocketsForChild i request"
  have run: "?r = (fst ?r, snd ?r)" by simp
  have socks: "reply_sockets (fst ?r) = map (socket_of ?heap) (exported i)"
    by (rule handoff_result(1) [OF run])
  have reg: "handlers (snd ?r) = register ?heap (handlers i) (exported i)"
    by (rule handoff_result(3) [OF run])
  have d: "distinct (map (key_of ?heap) (exported i))"
    using distinct_take [OF eligible_distinct
        [of ?heap "handlers i" "all_connections (workers (srv i))"], of MAX_FD_SIZE]
    by (simp add: exported_def remaining_def take_map)
  have unreg: "handlers i (key_of ?heap sc) = None" if "sc \<in> set (exported i)" for sc
  proof -
    from that have "sc \<in> set (eligible ?heap (handlers i) (all_connections (workers (srv i))))"
      by (auto simp: exported_def remaining_def dest: in_set_takeD)
    then show ?thesis by (rule eligible_unregistered)
  qed
  have new: "handlers (snd ?r) (key_of ?heap sc) = Some (ioHandle sc)"
    if "sc \<in> set (exported i)" for sc
    unfolding reg using d that by (rule register_distinct)
  have old: "handlers (snd ?r) k = handlers i k" if "handlers i k \<noteq> None" for k
  proof -
    from that unreg have "k \<notin> key_of ?heap ` set (exported i)" by auto
    then show ?thesis unfolding reg by (rule register_other)
  qed
  from socks d unreg new old handoff_keys_fresh [of i ss] show ?thesis
    by blast
qed

text \<open>Two requests at the example server: the first hands over both open TCP
  connections, the second none.\<close>

theorem connection_exported_once_witness:
  "\<lparr>ioHandle = 0, getReadBuffer = ''abc''\<rparr> \<in> set (exported example_internal)
   \<and> handlers example_internal ''10.0.0.1:80_10.0.0.2:7'' = None
   \<and> handlers (snd (getConnectionSocketsForChild example_internal kPassConnectionSocket))
        ''10.0.0.1:80_10.0.0.2:7'' = Some 0
   \<and> handoff_keys example_internal [example_server, example_server]
        = [[''10.0.0.1:80_10.0.0.2:7'', ''10.0.0.1:80_10.0.0.2:77''], []]
   \<and> distinct (concat (handoff_keys example_internal [example_server, example_server]))"
proof -
  let ?sc = "\<lparr>ioHandle = 0, getReadBuffer = ''abc''\<rparr>"
  have mem: "?sc \<in> set (exported example_internal)"
    by code_simp
  have key: "key_of (io_handles (srv example_internal)) ?sc = ''10.0.0.1:80_10.0.0.2:7''"
    by code_simp
  have run: "handoff_keys example_internal [example_server, example_server]
        = [[''10.0.0.1:80_10.0.0.2:7'', ''10.0.0.1:80_10.0.0.2:77''], []]"
    by code_simp
  from connection_exported_once [of example_internal kPassConnectionSocket
      "[example_server, example_server]"] mem
  have "handlers example_internal (key_of (io_handles (srv example_internal)) ?sc) = None
     \<and> handlers (snd (getConnectionSocketsForChild example_internal kPassConnectionSocket))
          (key_of (io_handles (srv example_internal)) ?sc) = Some (ioHandle ?sc)
     \<and> distinct (concat (handoff_keys example_internal [example_server, example_server]))"
    by blast
  with mem run show ?thesis
    unfolding key by simp
qed


section \<open>Listen sockets, connection data and the dispatch of messages\<close>

lemma listen_sockets_loop_found:
  "listen_sockets_loop ls addr w conc fd \<noteq> fd \<Longrightarrow>
     (\<exists>l \<in> set ls. localAddress l = addr \<and> bindToPort l) \<and> w < conc"
  by (induction ls) (auto split: if_splits)

lemma listen_sockets_loop_out_of_range:
  "conc \<le> w \<Longrightarrow> listen_sockets_loop ls addr w conc fd = fd"
  by (induction ls) auto

text \<open>
  Claim C3 says that every PassListenSocket request gets a reply, with descriptor \<open>-1\<close>
  when the worker index is at or above the concurrency. A request whose address the
  resolver refuses gets no reply at all: the exception of \<open>resolveUrl\<close> leaves the
  operation and the handler. Here the example server is asked for an address it cannot
  resolve, with worker index 5 of 2.
\<close>

theorem pass_listen_socket_unresolved_counterexample:
  "getListenSocketsForChild example_internal (kPassListenSocket ''bogus'' 5) = Inl EnvoyException
   \<and> onSocketEvent [\<lparr>requestreply = kRequest (kPassListenSocket ''bogus'' 5),
                      didnt_recognize_your_last_message = False\<rparr>] example_parent
       = Inl EnvoyException"
  by (simp add: getListenSocketsForChild_def handle_message_def example_parent_def
        example_internal_def example_server_def)

text \<open>
  Claim C3, amended. A PassListenSocket request whose address does not resolve ends in
  the exception, without a reply. One whose address resolves gets a PassListenSocket reply,
  and the descriptor read from that reply is \<open>-1\<close> unless some listener has the resolved
  address and binds to its port and the worker index is below the concurrency of the
  server. In particular a worker index at or above the concurrency gives \<open>-1\<close> whatever
  the address, and so does an address that no such listener has.
\<close>

theorem pass_listen_socket_resolved:
  "(resolveUrl (srv i) address = None \<longrightarrow>
      getListenSocketsForChild i (kPassListenSocket address worker_index) = Inl EnvoyException)
   \<and> (\<forall>addr. resolveUrl (srv i) address = Some addr \<longrightarrow>
        (\<exists>m. getListenSocketsForChild i (kPassListenSocket address worker_index) = Inr m
           \<and> requestreply m = kReply (ReplyPassListenSocket (the (reply_listen_fd m)))
           \<and> \<not> didnt_recognize_your_last_message m
           \<and> reply_listen_fd m \<noteq> None
           \<and> (reply_listen_fd m \<noteq> Some (- 1) \<longrightarrow>
                (\<exists>l \<in> set (listeners (srv i)). localAddress l = addr \<and> bindToPort l)
                \<and> worker_index < concurrency (srv i))
           \<and> (concurrency (srv i) \<le> worker_index \<longrightarrow> reply_listen_fd m = Some (- 1))
           \<and> ((\<forall>l \<in> set (listeners (srv i)). \<not> (localAddress l = addr \<and> bindToPort l))
                \<longrightarrow> reply_listen_fd m = Some (- 1))))"
proof -
  have none: "getListenSocketsForChild i (kPassListenSocket address worker_index) = Inl EnvoyException"
    if "resolveUrl (srv i) address = None"
    using that by (simp add: getListenSocketsForChild_def)
  have some: "\<exists>m. getListenSocketsForChild i (kPassListenSocket address worker_index) = Inr m
           \<and> requestreply m = kReply (ReplyPassListenSocket (the (reply_listen_fd m)))
           \<and> \<not> didnt_recognize_your_last_message m
           \<and> reply_listen_fd m \<noteq> None
           \<and> (reply_listen_fd m \<noteq> Some (- 1) \<longrightarrow>
                (\<exists>l \<in> set (listeners (srv i)). localAddress l = addr \<and> bindToPort l)
                \<and> worker_index < concurrency (srv i))
           \<and> (concurrency (srv i) \<le> worker_index \<longrightarrow> reply_listen_fd m = Some (- 1))
           \<and> ((\<forall>l \<in> set (listeners (srv i)). \<not> (localAddress l = addr \<and> bindToPort l))
                \<longrightarrow> reply_listen_fd m = Some (- 1))"
    if r: "resolveUrl (srv i) address = Some addr" for addr
  proof -
    let ?fd = "listen_sockets_loop (listeners (srv i)) addr worker_index (concurrency (srv i)) (- 1)"
    let ?m = "\<lparr>requestreply = kReply (ReplyPassListenSocket ?fd),
               didnt_recognize_your_last_message = False\<rparr>"
    have res: "getListenSocketsForChild i (kPassListenSocket address worker_index) = Inr ?m"
      using r by (simp add: getListenSocketsForChild_def wrapped_reply_def)
    have fd: "reply_listen_fd ?m = Some ?fd" by simp
    have found: "?fd \<noteq> - 1 \<longrightarrow>
        (\<exists>l \<in> set (listeners (srv i)). localAddress l = addr \<and> bindToPort l)
        \<and> worker_index < concurrency (srv i)"
      using listen_sockets_loop_found
        [of "listeners (srv i)" addr worker_index "concurrency (srv i)" "- 1"]
      by blast
    have range: "concurrency (srv i) \<le> worker_index \<longrightarrow> ?fd = - 1"
      by (simp add: listen_sockets_loop_out_of_range)
    have "requestreply ?m = kReply (ReplyPassListenSocket (the (reply_listen_fd ?m)))
           \<and> \<not> didnt_recognize_your_last_message ?m
           \<and> reply_listen_fd ?m \<noteq> None
           \<and> (reply_listen_fd ?m \<noteq> Some (- 1) \<longrightarrow>
                (\<exists>l \<in> set (listeners (srv i)). localAddress l = addr \<and> bindToPort l)
                \<and> worker_index < concurrency (srv i))
           \<and> (concurrency (srv i) \<le> worker_index \<longrightarrow> reply_listen_fd ?m = Some (- 1))
           \<and> ((\<forall>l \<in> set (listeners (srv i)). \<not> (localAddress l = addr \<and> bindToPort l))
                \<longrightarrow> reply_listen_fd ?m = Some (- 1))"
      unfolding fd using found range by auto
    with res show ?thesis by blast
  qed
  from none some show ?thesis by blast
qed

text \<open>At the example server: worker 5 of 2 gets no socket, worker 1 gets its own.\<close>

theorem pass_listen_socket_resolved_witness:
  "resolveUrl (srv example_internal) ''tcp://10.0.0.1:80'' = Some ''10.0.0.1:80''
   \<and> concurrency (srv example_internal) \<le> 5
   \<and> getListenSocketsForChild example_internal (kPassListenSocket ''tcp://10.0.0.1:80'' 5)
       = Inr \<lparr>requestreply = kReply (ReplyPassListenSocket (- 1)),
              didnt_recognize_your_last_message = False\<rparr>
   \<and> getListenSocketsForChild example_internal (kPassListenSocket ''tcp://10.0.0.1:80'' 1)
       = Inr \<lparr>requestreply = kReply (ReplyPassListenSocket 8),
              didnt_recognize_your_last_message = False\<rparr>"
proof -
  have h: "resolveUrl (srv example_internal) ''tcp://10.0.0.1:80'' = Some ''10.0.0.1:80''"
    by (simp add: example_internal_def example_server_def)
  have c: "concurrency (srv example_internal) \<le> 5"
    by (simp add: example_internal_def example_server_def)
  from pass_listen_socket_resolved [of example_internal "''tcp://10.0.0.1:80''" 5] h c
  obtain m where m: "getListenSocketsForChild example_internal
        (kPassListenSocket ''tcp://10.0.0.1:80'' 5) = Inr m"
    "requestreply m = kReply (ReplyPassListenSocket (the (reply_listen_fd m)))"
    "\<not> didnt_recognize_your_last_message m" "reply_listen_fd m = Some (- 1)"
    by blast
  from m(2-4) have "m = \<lparr>requestreply = kReply (ReplyPassListenSocket (- 1)),
              didnt_recognize_your_last_message = False\<rparr>"
    by (cases m) simp
  with m(1) have five: "getListenSocketsForChild example_internal
        (kPassListenSocket ''tcp://10.0.0.1:80'' 5)
       = Inr \<lparr>requestreply = kReply (ReplyPassListenSocket (- 1)),
              didnt_recognize_your_last_message = False\<rparr>"
    by simp
  have one: "getListenSocketsForChild example_internal (kPassListenSocket ''tcp://10.0.0.1:80'' 1)
       = Inr \<lparr>requestreply = kReply (ReplyPassListenSocket 8),
              didnt_recognize_your_last_message = False\<rparr>"
    by (simp add: getListenSocketsForChild_def wrapped_reply_def example_internal_def
          example_server_def)
  from h c five one show ?thesis by simp
qed

text \<open>
  Claim C5. A PassConnectionData request for an identifier that is not a key of the
  registry is answered by a reply with that identifier and no connection data; the
  operation ends normally and changes nothing.
\<close>

theorem unknown_connection_data:
  assumes "handlers i connection_id = None"
  shows "getConnectionDataForChild i (kPassConnectionData connection_id)
           = (wrapped_reply (ReplyPassConnectionData connection_id None), i)"
  using assms by (simp add: getConnectionDataForChild_def)

text \<open>At the example parent, whose registry is empty.\<close>

theorem unknown_connection_data_witness:
  "handlers example_internal ''10.0.0.1:80_10.0.0.2:7'' = None
   \<and> getConnectionDataForChild example_internal (kPassConnectionData ''10.0.0.1:80_10.0.0.2:7'')
       = (\<lparr>requestreply = kReply (ReplyPassConnectionData ''10.0.0.1:80_10.0.0.2:7'' None),
           didnt_recognize_your_last_message = False\<rparr>, example_internal)"
proof -
  have h: "handlers example_internal ''10.0.0.1:80_10.0.0.2:7'' = None"
    by (simp add: example_internal_def)
  from unknown_connection_data [OF h] h show ?thesis
    by (simp add: wrapped_reply_def)
qed

text \<open>
  Claim C4. A received message that is a reply, or a request whose tag is not set to a
  known operation, is answered by one message to the address of the child with the flag
  \<open>didnt_recognize_your_last_message\<close> set. Nothing else changes: no operation runs, no
  signal is sent, and the handler goes on without an error.
\<close>

theorem unrecognized_message:
  assumes "requestreply m = kReply r \<or> requestreply m = kRequest REQUEST_NOT_SET"
  shows "handle_message m p = Inr (p\<lparr>sent := sent p @ [(child_address p, didnt_recognize)]\<rparr>)
       \<and> onSocketEvent [m] p = Inr (p\<lparr>sent := sent p @ [(child_address p, didnt_recognize)]\<rparr>)"
  using assms by (auto simp: handle_message_def sendHotRestartMessage_def)

text \<open>The example parent receives a reply.\<close>

theorem unrecognized_message_witness:
  "(requestreply \<lparr>requestreply = kReply (ReplyPassListenSocket 3),
                  didnt_recognize_your_last_message = False\<rparr> = kReply (ReplyPassListenSocket 3)
    \<or> requestreply \<lparr>requestreply = kReply (ReplyPassListenSocket 3),
                  didnt_recognize_your_last_message = False\<rparr> = kRequest REQUEST_NOT_SET)
   \<and> onSocketEvent [\<lparr>requestreply = kReply (ReplyPassListenSocket 3),
                      didnt_recognize_your_last_message = False\<rparr>] example_parent
       = Inr (example_parent\<lparr>sent := [(''child'',
           \<lparr>requestreply = REQUESTREPLY_NOT_SET, didnt_recognize_your_last_message = True\<rparr>)]\<rparr>)"
proof -
  let ?m = "\<lparr>requestreply = kReply (ReplyPassListenSocket 3),
             didnt_recognize_your_last_message = False\<rparr>"
  have h: "requestreply ?m = kReply (ReplyPassListenSocket 3)
           \<or> requestreply ?m = kRequest REQUEST_NOT_SET"
    by simp
  from unrecognized_message [OF h, of example_parent] h show ?thesis
    by (simp add: example_parent_def didnt_recognize_def)
qed

text \<open>
  Claim C8. A Terminate request makes the process send itself the termination signal.
  No message is sent and no operation of the server runs for this request.
\<close>

theorem terminate_request:
  assumes "requestreply m = kRequest kTerminate"
  shows "handle_message m p = Inr (p\<lparr>killed := killed p @ [SIGTERM]\<rparr>)"
  using assms by (simp add: handle_message_def)

text \<open>The example parent receives a Terminate request.\<close>

theorem terminate_request_witness:
  "requestreply \<lparr>requestreply = kRequest kTerminate,
                 didnt_recognize_your_last_message = False\<rparr> = kRequest kTerminate
   \<and> handle_message \<lparr>requestreply = kRequest kTerminate,
                      didnt_recognize_your_last_message = False\<rparr> example_parent
       = Inr (example_parent\<lparr>killed := [SIGTERM]\<rparr>)
   \<and> sent (example_parent\<lparr>killed := [SIGTERM]\<rparr>) = []"
proof -
  let ?m = "\<lparr>requestreply = kRequest kTerminate, didnt_recognize_your_last_message = False\<rparr>"
  have h: "requestreply ?m = kRequest kTerminate" by simp
  from terminate_request [OF h, of example_parent] h show ?thesis
    by (simp add: example_parent_def)
qed

text \<open>
  Claim C7 says that a DrainListeners request is answered by an acknowledgment. The handler
  sends nothing for it: at the example parent no message has been sent after the request.
\<close>

theorem drain_listeners_ack_counterexample:
  "map_sum id sent
     (handle_message \<lparr>requestreply = kRequest kDrainListeners,
                      didnt_recognize_your_last_message = False\<rparr> example_parent) = Inr []"
  by (simp add: handle_message_def example_parent_def)

text \<open>
  Claim C7, amended. A DrainListeners request makes the handler call the listener draining
  of the server once, and no message is sent for it.
\<close>

theorem drain_listeners_request:
  assumes "requestreply m = kRequest kDrainListeners"
  shows "handle_message m p = Inr (p\<lparr>internal_of := drainListeners (internal_of p)\<rparr>)
       \<and> drainListeners_calls (srv (drainListeners (internal_of p)))
           = Suc (drainListeners_calls (srv (internal_of p)))
       \<and> sent (p\<lparr>internal_of := drainListeners (internal_of p)\<rparr>) = sent p"
  using assms by (simp add: handle_message_def drainListeners_def)

text \<open>The example parent receives a DrainListeners request.\<close>

theorem drain_listeners_request_witness:
  "requestreply \<lparr>requestreply = kRequest kDrainListeners,
                 didnt_recognize_your_last_message = False\<rparr> = kRequest kDrainListeners
   \<and> handle_message \<lparr>requestreply = kRequest kDrainListeners,
                      didnt_recognize_your_last_message = False\<rparr> example_parent
       = Inr (example_parent\<lparr>internal_of := drainListeners example_internal\<rparr>)
   \<and> drainListeners_calls (srv (drainListeners example_internal)) = 1"
proof -
  let ?m = "\<lparr>requestreply = kRequest kDrainListeners, didnt_recognize_your_last_message = False\<rparr>"
  have h: "requestreply ?m = kRequest kDrainListeners" by simp
  from drain_listeners_request [OF h, of example_parent] h show ?thesis
    by (simp add: example_parent_def example_internal_def example_server_def)
qed


section \<open>The stats export\<close>

lemma recordDynamics_fields [simp]:
  "gauges (recordDynamics s stats name sn) = gauges stats"
  "counter_deltas (recordDynamics s stats name sn) = counter_deltas stats"
  by (simp_all add: recordDynamics_def Let_def)


lemma gauges_loop_counter_deltas [simp]:
  "counter_deltas (gauges_loop s gs stats) = counter_deltas stats"
  by (induction gs arbitrary: stats) simp_all

lemma fst_counters_loop_Cons:
  "fst (counters_loop s (c # cs) stats) =
     fst (counters_loop s cs
       (if counter_used c \<and> 0 < pending_increment c
        then recordDynamics s
               (stats\<lparr>counter_deltas :=
                  (counter_deltas stats)(counter_name c \<mapsto> pending_increment c)\<rparr>)
               (counter_name c) (counter_statName c)
        else stats))"
  by (simp add: latch_def split: prod.splits)

lemma counters_loop_gauges [simp]:
  "gauges (fst (counters_loop s cs stats)) = gauges stats"
proof (induction cs arbitrary: stats)
  case Nil
  show ?case by simp
next
  case (Cons c cs)
  show ?case unfolding fst_counters_loop_Cons Cons.IH by simp
qed


lemma counters_loop_keeps:
  "counter_deltas stats n \<noteq> None \<Longrightarrow> counter_deltas (fst (counters_loop s cs stats)) n \<noteq> None"
proof (induction cs arbitrary: stats)
  case Nil
  then show ?case by simp
next
  case (Cons c cs)
  show ?case unfolding fst_counters_loop_Cons
    by (rule Cons.IH) (use Cons.prems in simp)
qed

lemma counters_loop_from:
  "counter_deltas (fst (counters_loop s cs stats)) n = Some v \<Longrightarrow>
     counter_deltas stats n = Some v
     \<or> (\<exists>c \<in> set cs. counter_name c = n \<and> counter_used c \<and> 0 < pending_increment c
           \<and> v = pending_increment c)"
proof (induction cs arbitrary: stats)
  case Nil
  then show ?case by simp
next
  case (Cons c cs)
  from Cons.IH [OF Cons.prems [unfolded fst_counters_loop_Cons]] show ?case
    by (auto split: if_splits)
qed

lemma counters_loop_other:
  assumes "n \<notin> counter_name ` set cs"
  shows "counter_deltas (fst (counters_loop s cs stats)) n = counter_deltas stats n"
proof (cases "counter_deltas (fst (counters_loop s cs stats)) n")
  case None
  have "counter_deltas stats n = None"
  proof (rule ccontr)
    assume "counter_deltas stats n \<noteq> None"
    then have "counter_deltas (fst (counters_loop s cs stats)) n \<noteq> None"
      by (rule counters_loop_keeps)
    with None show False by simp
  qed
  with None show ?thesis by simp
next
  case (Some v)
  from counters_loop_from [OF this] assms Some show ?thesis by auto
qed

lemma counters_loop_sets:
  "c \<in> set cs \<Longrightarrow> counter_used c \<Longrightarrow> 0 < pending_increment c
    \<Longrightarrow> distinct (map counter_name cs)
    \<Longrightarrow> counter_deltas (fst (counters_loop s cs stats)) (counter_name c) = Some (pending_increment c)"
proof (induction cs arbitrary: stats)
  case Nil
  then show ?case by simp
next
  case (Cons a cs)
  show ?case
  proof (cases "c = a")
    case True
    from Cons.prems True have "counter_name c \<notin> counter_name ` set cs" by simp
    then show ?thesis unfolding fst_counters_loop_Cons
      using True Cons.prems(2,3) by (simp add: counters_loop_other)
  next
    case False
    with Cons.prems have "c \<in> set cs" "distinct (map counter_name cs)" by simp_all
    then show ?thesis unfolding fst_counters_loop_Cons
      using Cons.prems(2,3) by (intro Cons.IH)
  qed
qed

lemma export_counter_deltas:
  "counter_deltas (fst (exportStatsToChild i stats))
     = counter_deltas (fst (counters_loop (srv i) (store_counters (srv i))
         (gauges_loop (srv i) (store_gauges (srv i)) stats)))"
  by (simp add: exportStatsToChild_def split: prod.splits)

lemma counters_loop_hits:
  "c \<in> set cs \<Longrightarrow> counter_used c \<Longrightarrow> 0 < pending_increment c
    \<Longrightarrow> counter_deltas (fst (counters_loop s cs stats)) (counter_name c) \<noteq> None"
proof (induction cs arbitrary: stats)
  case Nil
  then show ?case by simp
next
  case (Cons a cs)
  show ?case
  proof (cases "c = a")
    case True
    show ?thesis unfolding fst_counters_loop_Cons
      by (rule counters_loop_keeps) (use True Cons.prems(2,3) in simp)
  next
    case False
    with Cons.prems have "c \<in> set cs" by simp
    then show ?thesis unfolding fst_counters_loop_Cons
      using Cons.prems(2,3) by (intro Cons.IH)
  qed
qed

lemma counters_loop_last:
  "counter_deltas (fst (counters_loop s cs stats)) n =
     (case filter (\<lambda>c. counter_name c = n \<and> counter_used c \<and> 0 < pending_increment c) cs of
        [] \<Rightarrow> counter_deltas stats n
      | c # cs' \<Rightarrow> Some (pending_increment (last (c # cs'))))"
proof (induction cs arbitrary: stats)
  case Nil
  show ?case by simp
next
  case (Cons c cs)
  show ?case unfolding fst_counters_loop_Cons Cons.IH
    by (auto split: list.splits)
qed

text \<open>
  Claim C6 says that the exported value of a used counter with a latched delta above zero
  is that delta. The map of the reply is keyed by the name of the counter: of two such
  counters with one name the later one overwrites the entry of the earlier. Here the first
  counter has the delta 9 and the entry of its name is 7.
\<close>

theorem counter_value_counterexample:
  "counter_used (hd (store_counters (srv twin_counters_internal)))
   \<and> 0 < fst (latch (hd (store_counters (srv twin_counters_internal))))
   \<and> fst (latch (hd (store_counters (srv twin_counters_internal)))) = 9
   \<and> counter_deltas (fst (exportStatsToChild twin_counters_internal empty_stats))
        (counter_name (hd (store_counters (srv twin_counters_internal)))) = Some 7"
  by (simp add: twin_counters_internal_def example_server_def latch_def export_counter_deltas
        counters_loop_last empty_stats_def)

text \<open>
  Claim C6, amended. After a stats export into a fresh reply, a name is in the map of
  counter deltas exactly when a counter of that name is used and has a latched delta above
  zero, and its entry is the latched delta of the last such counter of the store. When the
  counters of the store have names that differ from one another, the entry of every counter
  is its own latched delta if the counter is used and the delta is above zero, and there is
  no entry otherwise.
\<close>

theorem counter_deltas_exported:
  "counter_deltas (fst (exportStatsToChild i empty_stats)) n
     = (case filter (\<lambda>c. counter_name c = n \<and> counter_used c \<and> 0 < fst (latch c))
               (store_counters (srv i)) of
          [] \<Rightarrow> None
        | c # cs \<Rightarrow> Some (fst (latch (last (c # cs)))))
   \<and> (counter_deltas (fst (exportStatsToChild i empty_stats)) n \<noteq> None)
     = (\<exists>c \<in> set (store_counters (srv i)).
          counter_name c = n \<and> counter_used c \<and> 0 < fst (latch c))
   \<and> (distinct (map counter_name (store_counters (srv i))) \<longrightarrow>
        (\<forall>c \<in> set (store_counters (srv i)).
           counter_deltas (fst (exportStatsToChild i empty_stats)) (counter_name c)
             = (if counter_used c \<and> 0 < fst (latch c) then Some (fst (latch c)) else None)))"
proof -
  let ?cs = "store_counters (srv i)"
  let ?stats = "gauges_loop (srv i) (store_gauges (srv i)) empty_stats"
  define d where "d = counter_deltas (fst (counters_loop (srv i) ?cs ?stats))"
  have export: "counter_deltas (fst (exportStatsToChild i empty_stats)) = d"
    unfolding d_def by (rule export_counter_deltas)
  have only: "\<exists>c \<in> set ?cs. counter_name c = k \<and> counter_used c \<and> 0 < pending_increment c
        \<and> v = pending_increment c" if "d k = Some v" for k v
    using counters_loop_from [OF that [unfolded d_def]] by (simp add: empty_stats_def)
  have hits: "d (counter_name c) \<noteq> None"
    if "c \<in> set ?cs" "counter_used c" "0 < pending_increment c" for c
    unfolding d_def using that by (rule counters_loop_hits)
  have iff: "(d n \<noteq> None)
     = (\<exists>c \<in> set ?cs. counter_name c = n \<and> counter_used c \<and> 0 < pending_increment c)"
  proof
    assume "d n \<noteq> None"
    then obtain v where "d n = Some v" by auto
    from only [OF this] show "\<exists>c \<in> set ?cs. counter_name c = n \<and> counter_used c
        \<and> 0 < pending_increment c"
      by blast
  next
    assume "\<exists>c \<in> set ?cs. counter_name c = n \<and> counter_used c \<and> 0 < pending_increment c"
    then obtain c where "c \<in> set ?cs" "counter_name c = n" "counter_used c"
      "0 < pending_increment c" by blast
    with hits [of c] show "d n \<noteq> None" by simp
  qed
  have val: "d (counter_name c)
      = (if counter_used c \<and> 0 < pending_increment c then Some (pending_increment c) else None)"
    if dist: "distinct (map counter_name ?cs)" and c: "c \<in> set ?cs" for c
  proof (cases "counter_used c \<and> 0 < pending_increment c")
    case True
    with counters_loop_sets [OF c _ _ dist, of "srv i" ?stats] show ?thesis
      by (simp add: d_def)
  next
    case False
    have "d (counter_name c) = None"
    proof (rule ccontr)
      assume "d (counter_name c) \<noteq> None"
      then obtain v where "d (counter_name c) = Some v" by auto
      from only [OF this] obtain c' where c': "c' \<in> set ?cs" "counter_name c' = counter_name c"
        "counter_used c'" "0 < pending_increment c'" by blast
      from dist have "inj_on counter_name (set ?cs)" by (simp add: distinct_map)
      with c c'(1,2) have "c' = c" by (auto dest: inj_onD)
      with c'(3,4) False show False by simp
    qed
    with False show ?thesis by simp
  qed
  have last_wins: "d n
      = (case filter (\<lambda>c. counter_name c = n \<and> counter_used c \<and> 0 < pending_increment c) ?cs of
           [] \<Rightarrow> None
         | c # cs \<Rightarrow> Some (pending_increment (last (c # cs))))"
    unfolding d_def counters_loop_last by (simp add: empty_stats_def split: list.splits)
  have l: "fst (latch c) = pending_increment c" for c
    by (simp add: latch_def)
  from last_wins iff val show ?thesis
    unfolding export l by blast
qed

text \<open>The three counters of the example server: one exported, one idle, one unused.\<close>

theorem counter_deltas_exported_witness:
  "distinct (map counter_name (store_counters (srv example_internal)))
   \<and> counter_deltas (fst (exportStatsToChild example_internal empty_stats)) ''c.hit'' = Some 5
   \<and> counter_deltas (fst (exportStatsToChild example_internal empty_stats)) ''c.idle'' = None
   \<and> counter_deltas (fst (exportStatsToChild example_internal empty_stats)) ''c.off'' = None"
proof -
  let ?hit = "\<lparr>counter_used = True, counter_name = ''c.hit'', pending_increment = 5,
          counter_statName = [3]\<rparr>"
  let ?idle = "\<lparr>counter_used = True, counter_name = ''c.idle'', pending_increment = 0,
          counter_statName = [4]\<rparr>"
  let ?off = "\<lparr>counter_used = False, counter_name = ''c.off'', pending_increment = 6,
          counter_statName = [5]\<rparr>"
  have cs: "store_counters (srv example_internal) = [?hit, ?idle, ?off]"
    by (simp add: example_internal_def example_server_def)
  have dist: "distinct (map counter_name (store_counters (srv example_internal)))"
    unfolding cs by simp
  from counter_deltas_exported [of example_internal "''c.hit''"] dist
  have all: "\<forall>c \<in> set [?hit, ?idle, ?off].
      counter_deltas (fst (exportStatsToChild example_internal empty_stats)) (counter_name c)
        = (if counter_used c \<and> 0 < fst (latch c) then Some (fst (latch c)) else None)"
    unfolding cs by blast
  from all have "counter_deltas (fst (exportStatsToChild example_internal empty_stats))
      (counter_name ?hit) = Some 5"
    by (simp add: latch_def)
  moreover from all have "counter_deltas (fst (exportStatsToChild example_internal empty_stats))
      (counter_name ?idle) = None"
    by (simp add: latch_def)
  moreover from all have "counter_deltas (fst (exportStatsToChild example_internal empty_stats))
      (counter_name ?off) = None"
    by (simp add: latch_def)
  ultimately show ?thesis using dist by simp
qed











end
